theory Spec2Isabelle
  imports Main "HOL-Library.Word"
begin

section \<open>JavaScript strings\<close>

text \<open>
  A JavaScript string is a sequence of 16-bit code units. String literals of the source
  are written \<open>js ''...''\<close>; the code units the parser looks at have names.
\<close>

type_synonym jsstring = "16 word list"

definition js :: "string \<Rightarrow> jsstring" where
  "js s = map of_char s"

abbreviation NUL :: "16 word" where "NUL \<equiv> 0x00"
abbreviation LF :: "16 word" where "LF \<equiv> 0x0A"
abbreviation CR :: "16 word" where "CR \<equiv> 0x0D"
abbreviation SPACE :: "16 word" where "SPACE \<equiv> 0x20"
abbreviation COLON :: "16 word" where "COLON \<equiv> 0x3A"
abbreviation BOM :: "16 word" where "BOM \<equiv> 0xFEFF"

text \<open>\<open>s.startsWith(p)\<close> and \<open>s.endsWith(p)\<close>.\<close>

definition startsWith :: "jsstring \<Rightarrow> jsstring \<Rightarrow> bool" where
  "startsWith s p = (take (length p) s = p)"

definition endsWith :: "jsstring \<Rightarrow> jsstring \<Rightarrow> bool" where
  "endsWith s p = (length p \<le> length s \<and> drop (length s - length p) s = p)"

text \<open>\<open>s.indexOf(c)\<close> for a one-unit search string: the first index, or -1.\<close>

fun indexOf :: "jsstring \<Rightarrow> 16 word \<Rightarrow> int" where
  "indexOf [] c = -1"
| "indexOf (x # xs) c =
     (if x = c then 0 else (let i = indexOf xs c in if i = -1 then -1 else i + 1))"

text \<open>
  \<open>s.slice(start, end)\<close>: a negative index counts from the end, and both are clamped
  to the string. \<open>s.slice(start)\<close> runs to the end of the string.
\<close>

definition sliceIndex :: "nat \<Rightarrow> int \<Rightarrow> nat" where
  "sliceIndex len i = (if i < 0 then nat (max (int len + i) 0) else min (nat i) len)"

definition slice :: "jsstring \<Rightarrow> int \<Rightarrow> int \<Rightarrow> jsstring" where
  "slice s start end =
     (let from = sliceIndex (length s) start; to = sliceIndex (length s) end
      in take (to - from) (drop from s))"

definition sliceFrom :: "jsstring \<Rightarrow> int \<Rightarrow> jsstring" where
  "sliceFrom s start = drop (sliceIndex (length s) start) s"

text \<open>\<open>s.includes(c)\<close> for a one-unit search string.\<close>

definition includesUnit :: "jsstring \<Rightarrow> 16 word \<Rightarrow> bool" where
  "includesUnit s c = (c \<in> set s)"

text \<open>\<open>text.replace(/^\uFEFF/, '')\<close>: without the \<open>m\<close> flag \<open>^\<close> is the start of the string.\<close>

fun stripBOM :: "jsstring \<Rightarrow> jsstring" where
  "stripBOM [] = []"
| "stripBOM (c # s) = (if c = BOM then s else c # s)"

text \<open>
  \<open>buffer.split(/\r\n|\r|\n/)\<close>: the pieces between successive leftmost matches. At a CR
  the alternative \<open>\r\n\<close> is tried first. The pattern matches no empty string, so the
  result of splitting the empty string is one empty piece.
\<close>

fun splitLines :: "jsstring \<Rightarrow> jsstring list" where
  "splitLines [] = [[]]"
| "splitLines [c] = (if c = CR \<or> c = LF then [[], []] else [[c]])"
| "splitLines (c # d # s) =
     (if c = CR \<and> d = LF then [] # splitLines s
      else if c = CR \<or> c = LF then [] # splitLines (d # s)
      else (case splitLines (d # s) of
              [] \<Rightarrow> [[c]]
            | l # ls \<Rightarrow> (c # l) # ls))"

text \<open>\<open>/^\d+$/.test(value)\<close>: one or more of the code units \<open>0\<close> to \<open>9\<close> and nothing else.\<close>

definition isDigit :: "16 word \<Rightarrow> bool" where
  "isDigit c = (0x30 \<le> c \<and> c \<le> 0x39)"

definition allDigits :: "jsstring \<Rightarrow> bool" where
  "allDigits v = (v \<noteq> [] \<and> list_all isDigit v)"

section \<open>JavaScript Numbers\<close>

text \<open>
  The Numbers \<open>Number.parseInt\<close> returns: a double whose value is an integer, with its
  sign (there is a negative zero), an infinity, or NaN.
\<close>

datatype sign = Plus | Minus

datatype number = NaN | Finite sign nat | Infinite sign

text \<open>The number of binary digits of \<open>n\<close>.\<close>

fun bitLength :: "nat \<Rightarrow> nat" where
  "bitLength n = (if n = 0 then 0 else Suc (bitLength (n div 2)))"

declare bitLength.simps [simp del]

text \<open>
  The Number for the integer \<open>n\<close> with sign \<open>s\<close>: \<open>n\<close> itself when it has at most 53 binary
  digits, and otherwise \<open>n\<close> rounded to 53 significant binary digits, to the nearest and
  to the even one of two equally near; an infinity when the rounded value reaches
  \<open>2^1024\<close>.
\<close>

definition toNumber :: "sign \<Rightarrow> nat \<Rightarrow> number" where
  "toNumber s n =
     (if n < 2 ^ 53 then Finite s n
      else (let e = bitLength n - 53;
                q = n div 2 ^ e;
                r = n mod 2 ^ e;
                q = (if 2 ^ e < 2 * r \<or> (2 * r = 2 ^ e \<and> odd q) then q + 1 else q)
            in if q * 2 ^ e < 2 ^ 1024 then Finite s (q * 2 ^ e) else Infinite s))"

text \<open>White space and line terminators, which \<open>parseInt\<close> skips at the start.\<close>

definition isWhiteSpace :: "16 word \<Rightarrow> bool" where
  "isWhiteSpace c =
     (c \<in> {0x09, 0x0A, 0x0B, 0x0C, 0x0D, 0x20, 0xA0, 0x1680, 0x2028, 0x2029, 0x202F, 0x205F,
            0x3000, 0xFEFF} \<or> (0x2000 \<le> c \<and> c \<le> 0x200A))"

text \<open>The integer that a string of decimal digits denotes, digit by digit.\<close>

definition mathInt :: "jsstring \<Rightarrow> nat" where
  "mathInt z = foldl (\<lambda>n c. 10 * n + (unat c - 48)) 0 z"

text \<open>
  \<open>Number.parseInt(string, 10)\<close>: leading white space is skipped, a sign is taken, the
  decimal digits that follow are read up to the first other code unit, and the result is
  the Number for their integer, or NaN when there is no digit. (Past the twentieth
  significant digit an implementation may read a digit as zero; the model converts the
  digits as they are.)
\<close>

definition parseInt :: "jsstring \<Rightarrow> number" where
  "parseInt string =
     (let s = dropWhile isWhiteSpace string;
          sg = (if s \<noteq> [] \<and> hd s = 0x2D then Minus else Plus);
          s = (if s \<noteq> [] \<and> (hd s = 0x2B \<or> hd s = 0x2D) then tl s else s);
          z = takeWhile isDigit s
      in if z = [] then NaN else toNumber sg (mathInt z))"

section \<open>Events\<close>

text \<open>The in-progress event of \<open>createEvent\<close>; \<open>undefined\<close> is \<open>None\<close>.\<close>

record event =
  type :: jsstring
  data :: jsstring
  retry :: "number option"

text \<open>The record that is enqueued (\<open>ServerSentEvent\<close> of the type declarations).\<close>

record ServerSentEvent =
  sse_type :: jsstring
  sse_data :: jsstring
  sse_lastEventId :: jsstring
  sse_retry :: "number option"

text \<open>The controller is represented by the records enqueued on it so far, oldest first.\<close>

type_synonym controller = "ServerSentEvent list"

definition createEvent :: event where
  "createEvent = \<lparr>type = [], data = [], retry = None\<rparr>"

definition dispatchEvent :: "event \<Rightarrow> controller \<Rightarrow> jsstring \<Rightarrow> controller" where
  "dispatchEvent ev controller lastEventId =
     (let d = data ev;
          d = (if endsWith d [LF] then slice d 0 (-1) else d)
      in if d = [] then controller
         else controller @
           [\<lparr>sse_type = (if type ev = [] then js ''message'' else type ev),
             sse_data = d,
             sse_lastEventId = lastEventId,
             sse_retry = retry ev\<rparr>])"

text \<open>The field name and the value that \<open>processField\<close> computes from a line.\<close>

definition fieldName :: "jsstring \<Rightarrow> jsstring" where
  "fieldName line =
     (let colonIndex = indexOf line COLON
      in if colonIndex = -1 then line else slice line 0 colonIndex)"

definition fieldValue :: "jsstring \<Rightarrow> jsstring" where
  "fieldValue line =
     (let colonIndex = indexOf line COLON;
          v = (if colonIndex = -1 then [] else sliceFrom line (colonIndex + 1))
      in if startsWith v [SPACE] then sliceFrom v 1 else v)"

text \<open>
  \<open>processField\<close> mutates the event and may call \<open>setLastEventId\<close>, which assigns the
  stream's \<open>lastEventId\<close>: the model takes both and returns both.
\<close>

definition processField :: "jsstring \<Rightarrow> event \<Rightarrow> jsstring \<Rightarrow> event \<times> jsstring" where
  "processField line ev lastEventId =
     (let field = fieldName line; v = fieldValue line
      in if field = js ''event'' then (ev\<lparr>type := v\<rparr>, lastEventId)
         else if field = js ''data'' then (ev\<lparr>data := data ev @ v @ [LF]\<rparr>, lastEventId)
         else if field = js ''id'' then
           (if \<not> includesUnit v NUL then (ev, v) else (ev, lastEventId))
         else if field = js ''retry'' then
           (if allDigits v then (ev\<lparr>retry := Some (parseInt v)\<rparr>, lastEventId)
            else (ev, lastEventId))
         else (ev, lastEventId))"

section \<open>The transform stream\<close>

text \<open>The variables the constructor closes over.\<close>

record parser =
  buffer :: jsstring
  isFirstChunk :: bool
  event :: event
  lastEventId :: jsstring

definition newParser :: parser where
  "newParser = \<lparr>buffer = [], isFirstChunk = True, event = createEvent, lastEventId = []\<rparr>"

text \<open>A chunk written to the stream is a string or some other value.\<close>

datatype chunk = Str jsstring | NonString

datatype error = TypeError string

text \<open>The loop over the complete lines, on the event, the last event id and the controller.\<close>

fun transformLines ::
  "jsstring list \<Rightarrow> event \<times> jsstring \<times> controller \<Rightarrow> event \<times> jsstring \<times> controller" where
  "transformLines [] st = st"
| "transformLines (line # lines) (ev, lid, controller) =
     (if line = [] then transformLines lines (createEvent, lid, dispatchEvent ev controller lid)
      else if startsWith line [COLON] then transformLines lines (ev, lid, controller)
      else (case processField line ev lid of
              (ev', lid') \<Rightarrow> transformLines lines (ev', lid', controller)))"

text \<open>
  \<open>transform(chunk, controller)\<close>. A call either throws or returns; in both cases the
  controller and the parser are as the call left them.
\<close>

definition transform ::
  "chunk \<Rightarrow> controller \<Rightarrow> parser \<Rightarrow> (error + unit) \<times> controller \<times> parser" where
  "transform chunk controller p =
     (case chunk of
        NonString \<Rightarrow>
          (Inl (TypeError ''ServerSentEventTransformStream expects string chunks. Pipe through TextDecoderStream first for byte streams.''),
           controller, p)
      | Str text \<Rightarrow>
          (let text = (if isFirstChunk p then stripBOM text else text);
               buf = buffer p @ text;
               lines = splitLines buf;
               rest = (if lines = [] then [] else last lines);
               lines = butlast lines
           in case transformLines lines (event p, lastEventId p, controller) of
                (ev, lid, controller') \<Rightarrow>
                  (Inr (), controller',
                   \<lparr>buffer = rest, isFirstChunk = False, event = ev, lastEventId = lid\<rparr>)))"

definition flush :: "controller \<Rightarrow> parser \<Rightarrow> controller \<times> parser" where
  "flush controller p =
     (case (if buffer p \<noteq> [] \<and> \<not> startsWith (buffer p) [COLON]
            then processField (buffer p) (event p) (lastEventId p)
            else (event p, lastEventId p)) of
        (ev, lid) \<Rightarrow> (dispatchEvent ev controller lid, p\<lparr>event := ev, lastEventId := lid\<rparr>))"

text \<open>
  A stream is driven by writing its chunks in order and closing it: \<open>transform\<close> runs on
  each chunk, and \<open>flush\<close> once at the end. A throw errors the stream.
\<close>

fun writeAll ::
  "chunk list \<Rightarrow> controller \<Rightarrow> parser \<Rightarrow> (error + unit) \<times> controller \<times> parser" where
  "writeAll [] controller p = (Inr (), controller, p)"
| "writeAll (c # cs) controller p =
     (case transform c controller p of
        (Inl e, controller', p') \<Rightarrow> (Inl e, controller', p')
      | (Inr u, controller', p') \<Rightarrow> writeAll cs controller' p')"

definition readAll :: "chunk list \<Rightarrow> error + ServerSentEvent list" where
  "readAll cs =
     (case writeAll cs [] newParser of
        (Inl e, controller, p) \<Rightarrow> Inl e
      | (Inr u, controller, p) \<Rightarrow> Inr (fst (flush controller p)))"

section \<open>The adapter\<close>

text \<open>
  A response has a body or none. The body is represented by the byte chunks it delivers,
  and \<open>TextDecoderStream\<close>, which is not part of the repository, by the function from
  those to the chunks it writes to the transform stream.
\<close>

record 'b response =
  body :: "'b list option"

definition parseServerSentEvents ::
  "('b list \<Rightarrow> chunk list) \<Rightarrow> 'b response option \<Rightarrow> error + (error + ServerSentEvent list)" where
  "parseServerSentEvents textDecoderStream response =
     (case response of
        None \<Rightarrow> Inl (TypeError ''Expected a Response object'')
      | Some r \<Rightarrow>
          (case body r of
             None \<Rightarrow> Inl (TypeError ''Expected response to have a body'')
           | Some b \<Rightarrow> Inr (readAll (textDecoderStream b))))"

section \<open>The events the specification describes\<close>

text \<open>
  The specification describes an emitted record by the lines of its event: the lines since
  the last blank line. These definitions follow its words; the theorems compare them with
  what the code enqueues.

  The values of the fields called \<open>name\<close> among some lines, in the order met. A comment
  is no field.
\<close>

definition fieldValues :: "jsstring \<Rightarrow> jsstring list \<Rightarrow> jsstring list" where
  "fieldValues name ls =
     map fieldValue (filter (\<lambda>l. \<not> startsWith l [COLON] \<and> fieldName l = name) ls)"

text \<open>The last of a list of values, or a default if there is none.\<close>

fun lastOr :: "'a \<Rightarrow> 'a list \<Rightarrow> 'a" where
  "lastOr d [] = d"
| "lastOr d (v # vs) = lastOr v vs"

text \<open>Values joined by a single newline between each two.\<close>

fun joinLines :: "jsstring list \<Rightarrow> jsstring" where
  "joinLines [] = []"
| "joinLines [v] = v"
| "joinLines (v # w # vs) = v @ LF # joinLines (w # vs)"

text \<open>
  The integer that the digits \<open>v\<close> are in base 10: each digit times the power of ten of its
  place.
\<close>

definition decimalValue :: "jsstring \<Rightarrow> nat" where
  "decimalValue v = (\<Sum>i<length v. (unat (v ! i) - 48) * 10 ^ (length v - Suc i))"

text \<open>
  The data, the type and the retry of the event made of the lines \<open>ls\<close> (the retry is the
  Number for the integer of the last value that is all digits), and the last event id after
  the lines \<open>ls\<close> when it was \<open>lid\<close> before them.
\<close>

definition spec_data :: "jsstring list \<Rightarrow> jsstring" where
  "spec_data ls = joinLines (fieldValues (js ''data'') ls)"

definition spec_type :: "jsstring list \<Rightarrow> jsstring" where
  "spec_type ls =
     (let v = lastOr [] (fieldValues (js ''event'') ls)
      in if v = [] then js ''message'' else v)"

definition spec_retry :: "jsstring list \<Rightarrow> number option" where
  "spec_retry ls =
     lastOr None
       (map (\<lambda>v. Some (toNumber Plus (decimalValue v)))
          (filter allDigits (fieldValues (js ''retry'') ls)))"

definition spec_lastEventId :: "jsstring \<Rightarrow> jsstring list \<Rightarrow> jsstring" where
  "spec_lastEventId lid ls =
     lastOr lid (filter (\<lambda>v. \<not> includesUnit v NUL) (fieldValues (js ''id'') ls))"

text \<open>The records a dispatch attempt emits for the event made of the lines \<open>block\<close>.\<close>

definition spec_events :: "jsstring \<Rightarrow> jsstring list \<Rightarrow> ServerSentEvent list" where
  "spec_events lid block =
     (if spec_data block = [] then []
      else [\<lparr>sse_type = spec_type block, sse_data = spec_data block,
             sse_lastEventId = spec_lastEventId lid block, sse_retry = spec_retry block\<rparr>])"


text \<open>
  No boundary between the chunks \<open>ts\<close>, written after the text \<open>acc\<close>, falls between a CR
  and the LF that follows it.
\<close>

fun keepsCRLF :: "jsstring \<Rightarrow> jsstring list \<Rightarrow> bool" where
  "keepsCRLF acc [] = True"
| "keepsCRLF acc (t # ts) =
     (\<not> (acc \<noteq> [] \<and> last acc = CR \<and> t \<noteq> [] \<and> hd t = LF) \<and> keepsCRLF (acc @ t) ts)"


section \<open>Parsed numbers\<close>

lemma mathInt_snoc: "mathInt (v @ [c]) = 10 * mathInt v + (unat c - 48)"
  by (simp add: mathInt_def)

lemma decimalValue_snoc: "decimalValue (v @ [c]) = 10 * decimalValue v + (unat c - 48)"
proof -
  have "(\<Sum>i<length v. (unat ((v @ [c]) ! i) - 48) * 10 ^ (Suc (length v) - Suc i)) =
        (\<Sum>i<length v. 10 * ((unat (v ! i) - 48) * 10 ^ (length v - Suc i)))"
  proof (rule sum.cong)
    fix i assume "i \<in> {..<length v}"
    then have i: "i < length v" by simp
    then have "Suc (length v) - Suc i = Suc (length v - Suc i)" by arith
    with i show "(unat ((v @ [c]) ! i) - 48) * 10 ^ (Suc (length v) - Suc i) =
        10 * ((unat (v ! i) - 48) * 10 ^ (length v - Suc i))"
      by (simp add: nth_append)
  qed simp
  then show ?thesis
    by (simp add: decimalValue_def sum_distrib_left)
qed

lemma mathInt_decimalValue: "mathInt v = decimalValue v"
proof (induction v rule: rev_induct)
  case Nil
  then show ?case by (simp add: mathInt_def decimalValue_def)
next
  case (snoc c v)
  then show ?case by (simp add: mathInt_snoc decimalValue_snoc)
qed

lemma digit_not_space: "isDigit c \<Longrightarrow> \<not> isWhiteSpace c \<and> c \<noteq> 0x2B \<and> c \<noteq> 0x2D"
  by (auto simp: isDigit_def isWhiteSpace_def word_le_nat_alt)

lemma parseInt_digits:
  assumes "allDigits v"
  shows "parseInt v = toNumber Plus (decimalValue v)"
proof -
  from assms obtain c w where v: "v = c # w" and c: "isDigit c" and all: "list_all isDigit v"
    by (cases v) (auto simp: allDigits_def)
  have d: "dropWhile isWhiteSpace v = v"
    using v c digit_not_space by simp
  have t: "takeWhile isDigit v = v"
    using all by (simp add: list_all_iff)
  have h: "v \<noteq> []" "hd v \<noteq> 0x2B" "hd v \<noteq> 0x2D"
    using v digit_not_space [OF c] by simp_all
  show ?thesis
    using h by (simp add: parseInt_def Let_def d t mathInt_decimalValue)
qed

lemma toNumber_exact: "n < 2 ^ 53 \<Longrightarrow> toNumber s n = Finite s n"
  by (simp add: toNumber_def)

lemma bitLength_upper: "n < 2 ^ bitLength n"
proof (induction n rule: bitLength.induct)
  case (1 n)
  show ?case
  proof (cases "n = 0")
    case True
    then show ?thesis by (simp add: bitLength.simps)
  next
    case False
    with 1 have "n div 2 < 2 ^ bitLength (n div 2)" by simp
    then have "n < 2 * 2 ^ bitLength (n div 2)" by arith
    with False show ?thesis by (simp add: bitLength.simps [of n])
  qed
qed

lemma bitLength_lower: "0 < n \<Longrightarrow> 2 ^ (bitLength n - 1) \<le> n"
proof (induction n rule: bitLength.induct)
  case (1 n)
  show ?case
  proof (cases "n div 2 = 0")
    case True
    with 1 have "n = 1" by arith
    then show ?thesis by (simp add: bitLength.simps)
  next
    case False
    with 1 have ih: "2 ^ (bitLength (n div 2) - 1) \<le> n div 2" by simp
    have "0 < bitLength (n div 2)"
      using False by (simp add: bitLength.simps [of "n div 2"])
    then have "(2::nat) ^ bitLength (n div 2) = 2 * 2 ^ (bitLength (n div 2) - 1)"
      by (cases "bitLength (n div 2)") simp_all
    with ih have "2 ^ bitLength (n div 2) \<le> n" by arith
    with 1 show ?thesis by (simp add: bitLength.simps [of n])
  qed
qed

lemma toNumber_overflow:
  assumes "2 ^ 1024 \<le> n"
  shows "toNumber s n = Infinite s"
proof -
  let ?e = "bitLength n - 53"
  let ?q = "n div 2 ^ ?e"
  have big: "\<not> n < 2 ^ 53"
  proof -
    have "(2::nat) ^ 53 \<le> 2 ^ 1024" by (rule power_increasing) simp_all
    with assms show ?thesis by simp
  qed
  have pos: "0 < n" using assms by (cases "n = 0") simp_all
  have "(2::nat) ^ 1024 < 2 ^ bitLength n"
    using assms bitLength_upper [of n] by (rule le_less_trans)
  from power_less_imp_less_exp [OF _ this] have bl: "1024 < bitLength n" by simp
  then have e: "bitLength n - 1 = ?e + 52" by simp
  have pw: "(2::nat) ^ (bitLength n - 1) = 2 ^ 52 * 2 ^ ?e"
    by (simp only: e power_add mult.commute)
  have "(2::nat) ^ 52 * 2 ^ ?e \<le> n"
    using bitLength_lower [OF pos] by (simp only: pw)
  then have q: "2 ^ 52 \<le> ?q"
    by (simp only: less_eq_div_iff_mult_less_eq zero_less_power zero_less_numeral)
  have "(2::nat) ^ 1024 \<le> 2 ^ (bitLength n - 1)"
    using bl by (intro power_increasing) simp_all
  also have "\<dots> = 2 ^ 52 * 2 ^ ?e" by (rule pw)
  also have "\<dots> \<le> ?q * 2 ^ ?e" using q by (rule mult_le_mono1)
  finally have lo: "2 ^ 1024 \<le> ?q * 2 ^ ?e" .
  then have up: "2 ^ 1024 \<le> (?q + 1) * 2 ^ ?e" by simp
  show ?thesis
    using big lo up by (simp add: toNumber_def Let_def not_less del: power_numeral)
qed

lemma retry_values:
  "map (\<lambda>v. Some (parseInt v)) (filter allDigits vs) =
   map (\<lambda>v. Some (toNumber Plus (decimalValue v))) (filter allDigits vs)"
  by (rule map_cong) (simp_all add: parseInt_digits)

section \<open>Splitting a line into field and value\<close>

lemma indexOf_notin: "c \<notin> set s \<Longrightarrow> indexOf s c = -1"
  by (induction s) auto

lemma indexOf_first: "c \<notin> set f \<Longrightarrow> indexOf (f @ c # v) c = int (length f)"
  by (induction f) (auto simp: Let_def)

lemma fieldName_no_colon: "COLON \<notin> set l \<Longrightarrow> fieldName l = l"
  by (simp add: fieldName_def indexOf_notin)

lemma fieldValue_no_colon: "COLON \<notin> set l \<Longrightarrow> fieldValue l = []"
  by (simp add: fieldValue_def indexOf_notin startsWith_def)

lemma fieldName_colon: "COLON \<notin> set f \<Longrightarrow> fieldName (f @ COLON # v) = f"
  by (simp add: fieldName_def indexOf_first slice_def sliceIndex_def)

lemma stripSpace:
  "(if startsWith v [SPACE] then sliceFrom v 1 else v) =
   (case v of [] \<Rightarrow> [] | x # w \<Rightarrow> if x = SPACE then w else v)"
  by (cases v) (auto simp: startsWith_def sliceFrom_def sliceIndex_def)

lemma sliceFrom_after: "sliceFrom (f @ c # v) (int (length f) + 1) = v"
  by (simp add: sliceFrom_def sliceIndex_def nat_add_distrib)

lemma fieldValue_colon:
  "COLON \<notin> set f \<Longrightarrow>
   fieldValue (f @ COLON # v) = (case v of [] \<Rightarrow> [] | x # w \<Rightarrow> if x = SPACE then w else v)"
  by (simp add: fieldValue_def indexOf_first Let_def stripSpace sliceFrom_after split: list.splits)

lemma processField_unknown:
  "fieldName line \<noteq> js ''event'' \<Longrightarrow> fieldName line \<noteq> js ''data'' \<Longrightarrow>
   fieldName line \<noteq> js ''id'' \<Longrightarrow> fieldName line \<noteq> js ''retry'' \<Longrightarrow>
   processField line ev lid = (ev, lid)"
  by (simp add: processField_def)

section \<open>Lines of spaces\<close>

lemma not_comment_spaces:
  "line \<noteq> [] \<Longrightarrow> set line \<subseteq> {SPACE} \<Longrightarrow> \<not> startsWith line [COLON]"
  by (cases line) (auto simp: startsWith_def)

lemma spaces_not_known:
  assumes "set line \<subseteq> {SPACE}"
  shows "line \<noteq> js ''event''" "line \<noteq> js ''data''" "line \<noteq> js ''id''" "line \<noteq> js ''retry''"
  using assms by (auto simp: js_def)

lemma transformLines_nonblank_controller:
  "l \<noteq> [] \<Longrightarrow> snd (snd (transformLines [l] (ev, lid, controller))) = controller"
  by (simp split: prod.splits)

text \<open>
  C10: a non-empty line of space characters only has no colon, so its field name is the
  whole line and its value is empty; the name is none of the four known ones, so the line
  leaves the event, the last event id and the controller as they were. No non-empty line
  \<open>l\<close> enqueues anything: only the empty line dispatches.
\<close>

theorem whitespace_line_is_unknown_field:
  assumes "line \<noteq> []" and "set line \<subseteq> {SPACE}"
  shows "fieldName line = line \<and> fieldValue line = [] \<and>
         transformLines [line] (ev, lid, controller) = (ev, lid, controller) \<and>
         (l \<noteq> [] \<longrightarrow> snd (snd (transformLines [l] (ev, lid, controller))) = controller)"
proof -
  from assms have nc: "COLON \<notin> set line" by auto
  have n: "fieldName line = line" and v: "fieldValue line = []"
    using nc by (simp_all add: fieldName_no_colon fieldValue_no_colon)
  have "processField line ev lid = (ev, lid)"
    using spaces_not_known [OF assms(2)] by (simp add: processField_unknown n)
  then have t: "transformLines [line] (ev, lid, controller) = (ev, lid, controller)"
    using assms by (simp add: not_comment_spaces)
  have d: "l \<noteq> [] \<longrightarrow> snd (snd (transformLines [l] (ev, lid, controller))) = controller"
    using transformLines_nonblank_controller by blast
  from n v t d show ?thesis by blast
qed

theorem whitespace_line_is_unknown_field_witness:
  "fieldName [SPACE, SPACE, SPACE] = [SPACE, SPACE, SPACE] \<and>
   fieldValue [SPACE, SPACE, SPACE] = [] \<and>
   transformLines [[SPACE, SPACE, SPACE]]
     (\<lparr>type = js ''update'', data = js ''x'' @ [LF], retry = Some (Finite Plus 5)\<rparr>, js ''7'', []) =
     (\<lparr>type = js ''update'', data = js ''x'' @ [LF], retry = Some (Finite Plus 5)\<rparr>, js ''7'', []) \<and>
   snd (snd (transformLines [js ''data: y'']
     (\<lparr>type = js ''update'', data = js ''x'' @ [LF], retry = Some (Finite Plus 5)\<rparr>, js ''7'', []))) = []"
  using whitespace_line_is_unknown_field
    [where line = "[SPACE, SPACE, SPACE]" and l = "js ''data: y''"
       and ev = "\<lparr>type = js ''update'', data = js ''x'' @ [LF], retry = Some (Finite Plus 5)\<rparr>"
       and lid = "js ''7''" and controller = "[]"]
  by (simp add: js_def)

section \<open>Comments and field lines\<close>

lemma transformLines_comment:
  "startsWith line [COLON] \<Longrightarrow> transformLines [line] (ev, lid, controller) = (ev, lid, controller)"
  by (auto simp: startsWith_def)

lemma transformLines_field:
  "line \<noteq> [] \<Longrightarrow> \<not> startsWith line [COLON] \<Longrightarrow>
   transformLines [line] (ev, lid, controller) =
     (fst (processField line ev lid), snd (processField line ev lid), controller)"
  by (simp split: prod.splits)

text \<open>
  C6: a line that starts with a colon changes nothing. Any other non-empty line goes
  through \<open>processField\<close>, which splits it at its first colon: the field name is what is
  before it and the value what is after it, less one leading space if the value starts
  with a space (a second space stays). A line \<open>l\<close> with no colon is a field name with the
  empty value.
\<close>

theorem line_field_value_split:
  "(startsWith line [COLON] \<longrightarrow>
      transformLines [line] (ev, lid, controller) = (ev, lid, controller)) \<and>
   (line \<noteq> [] \<and> \<not> startsWith line [COLON] \<longrightarrow>
      transformLines [line] (ev, lid, controller) =
        (fst (processField line ev lid), snd (processField line ev lid), controller)) \<and>
   (COLON \<notin> set f \<longrightarrow>
      fieldName (f @ COLON # v) = f \<and>
      fieldValue (f @ COLON # v) = (case v of [] \<Rightarrow> [] | x # w \<Rightarrow> if x = SPACE then w else v)) \<and>
   (COLON \<notin> set l \<longrightarrow> fieldName l = l \<and> fieldValue l = [])"
  using transformLines_comment transformLines_field fieldName_colon fieldValue_colon
    fieldName_no_colon fieldValue_no_colon
  by blast

theorem line_field_value_split_witness:
  "transformLines [js '': note''] (createEvent, js ''7'', []) = (createEvent, js ''7'', []) \<and>
   transformLines [js ''id: 8''] (createEvent, js ''7'', []) = (createEvent, js ''8'', []) \<and>
   fieldName (js ''data:  x'') = js ''data'' \<and> fieldValue (js ''data:  x'') = js '' x'' \<and>
   fieldName (js ''retry'') = js ''retry'' \<and> fieldValue (js ''retry'') = []"
  using line_field_value_split
    [where line = "js '': note''" and ev = createEvent and lid = "js ''7''" and controller = "[]"
       and f = "js ''data''" and v = "js ''  x''" and l = "js ''retry''"]
    line_field_value_split
    [where line = "js ''id: 8''" and ev = createEvent and lid = "js ''7''" and controller = "[]"
       and f = "js ''data''" and v = "js ''  x''" and l = "js ''retry''"]
  by (simp add: js_def startsWith_def processField_def fieldName_def fieldValue_def Let_def
      slice_def sliceFrom_def sliceIndex_def includesUnit_def)

section \<open>Usage errors\<close>

lemma writeAll_append:
  "writeAll (cs @ ds) controller p =
     (case writeAll cs controller p of
        (Inl e, controller', p') \<Rightarrow> (Inl e, controller', p')
      | (Inr u, controller', p') \<Rightarrow> writeAll ds controller' p')"
  by (induction cs arbitrary: controller p) (auto split: prod.splits sum.splits)

text \<open>
  C7: a chunk that is no string makes \<open>transform\<close> throw a TypeError with the controller
  and the parser untouched, so after any chunks \<open>cs\<close> that were accepted the stream stops
  with exactly the state and the enqueued records that \<open>cs\<close> left. The adapter throws a
  TypeError for a missing response and for a response without a body, whatever the decoder
  and without any stream being built.
\<close>

theorem usage_errors:
  "transform NonString controller p =
     (Inl (TypeError ''ServerSentEventTransformStream expects string chunks. Pipe through TextDecoderStream first for byte streams.''),
      controller, p) \<and>
   (writeAll cs [] newParser = (Inr (), controller', p') \<longrightarrow>
      writeAll (cs @ NonString # ds) [] newParser =
        (Inl (TypeError ''ServerSentEventTransformStream expects string chunks. Pipe through TextDecoderStream first for byte streams.''),
         controller', p')) \<and>
   parseServerSentEvents textDecoderStream None = Inl (TypeError ''Expected a Response object'') \<and>
   parseServerSentEvents textDecoderStream (Some \<lparr>body = None\<rparr>) =
     Inl (TypeError ''Expected response to have a body'')"
  by (simp add: transform_def parseServerSentEvents_def writeAll_append)

theorem usage_errors_witness:
  "writeAll [Str (js ''id: 7'' @ [LF] @ js ''data: x''), NonString, Str [LF, LF]] [] newParser =
     (Inl (TypeError ''ServerSentEventTransformStream expects string chunks. Pipe through TextDecoderStream first for byte streams.''),
      [], \<lparr>buffer = js ''data: x'', isFirstChunk = False, event = createEvent, lastEventId = js ''7''\<rparr>)"
  using usage_errors
    [where cs = "[Str (js ''id: 7'' @ [LF] @ js ''data: x'')]" and ds = "[Str [LF, LF]]" and controller' = "[]"
       and p' = "\<lparr>buffer = js ''data: x'', isFirstChunk = False, event = createEvent, lastEventId = js ''7''\<rparr>"]
  by (simp add: js_def transform_def newParser_def startsWith_def processField_def fieldName_def fieldValue_def Let_def
      slice_def sliceFrom_def sliceIndex_def includesUnit_def)

section \<open>The lines of one event\<close>

lemma fieldValues_Nil [simp]: "fieldValues name [] = []"
  by (simp add: fieldValues_def)

lemma fieldValues_Cons:
  "fieldValues name (l # ls) =
     (if \<not> startsWith l [COLON] \<and> fieldName l = name then fieldValue l # fieldValues name ls
      else fieldValues name ls)"
  by (simp add: fieldValues_def)

lemma fieldValues_append: "fieldValues name (xs @ ys) = fieldValues name xs @ fieldValues name ys"
  by (simp add: fieldValues_def)

lemma lastOr_append: "lastOr d (xs @ ys) = lastOr (lastOr d xs) ys"
  by (induction xs arbitrary: d) auto

lemma names_distinct:
  "js ''event'' \<noteq> js ''data''" "js ''event'' \<noteq> js ''id''" "js ''event'' \<noteq> js ''retry''"
  "js ''data'' \<noteq> js ''id''" "js ''data'' \<noteq> js ''retry''" "js ''id'' \<noteq> js ''retry''"
  "js ''event'' \<noteq> []" "js ''data'' \<noteq> []" "js ''id'' \<noteq> []" "js ''retry'' \<noteq> []"
  by (simp_all add: js_def)

lemma processField_cases:
  "processField l ev lid =
     (ev\<lparr>type := (if fieldName l = js ''event'' then fieldValue l else type ev),
          data := (if fieldName l = js ''data'' then data ev @ fieldValue l @ [LF] else data ev),
          retry := (if fieldName l = js ''retry'' \<and> allDigits (fieldValue l)
                    then Some (parseInt (fieldValue l)) else retry ev)\<rparr>,
      if fieldName l = js ''id'' \<and> \<not> includesUnit (fieldValue l) NUL then fieldValue l else lid)"
  using names_distinct by (simp add: processField_def Let_def)

lemma transformLines_block:
  "[] \<notin> set ls \<Longrightarrow>
   transformLines ls (ev, lid, c) =
     (ev\<lparr>type := lastOr (type ev) (fieldValues (js ''event'') ls),
          data := data ev @ concat (map (\<lambda>v. v @ [LF]) (fieldValues (js ''data'') ls)),
          retry := lastOr (retry ev)
            (map (\<lambda>v. Some (parseInt v)) (filter allDigits (fieldValues (js ''retry'') ls)))\<rparr>,
      spec_lastEventId lid ls, c)"
proof (induction ls arbitrary: ev lid)
  case Nil
  then show ?case by (simp add: spec_lastEventId_def)
next
  case (Cons l ls)
  then have l: "l \<noteq> []" and ls: "[] \<notin> set ls" by auto
  show ?case
  proof (cases "startsWith l [COLON]")
    case True
    then show ?thesis
      using l Cons.IH [OF ls] by (simp add: fieldValues_Cons spec_lastEventId_def)
  next
    case False
    then show ?thesis
      using l Cons.IH [OF ls] names_distinct
      by (simp add: fieldValues_Cons spec_lastEventId_def processField_cases)
  qed
qed

lemma concat_newlines: "vs \<noteq> [] \<Longrightarrow> concat (map (\<lambda>v. v @ [LF]) vs) = joinLines vs @ [LF]"
  by (induction vs rule: joinLines.induct) auto

lemma endsWith_snoc: "endsWith (d @ [c]) [c]"
  by (simp add: endsWith_def)

lemma slice_butlast: "slice (d @ [c]) 0 (-1) = d"
  by (simp add: slice_def sliceIndex_def)

lemma trim_newlines:
  "(let d = concat (map (\<lambda>v. v @ [LF]) vs) in if endsWith d [LF] then slice d 0 (-1) else d) = joinLines vs"
proof (cases "vs = []")
  case True
  then show ?thesis by (simp add: endsWith_def)
next
  case False
  then show ?thesis by (simp add: concat_newlines endsWith_snoc slice_butlast)
qed

lemma dispatchEvent_block:
  "dispatchEvent
     \<lparr>type = t, data = concat (map (\<lambda>v. v @ [LF]) vs), retry = r\<rparr> c lid =
   c @ (if joinLines vs = [] then []
        else [\<lparr>sse_type = (if t = [] then js ''message'' else t), sse_data = joinLines vs,
               sse_lastEventId = lid, sse_retry = r\<rparr>])"
  using trim_newlines [of vs] by (simp add: dispatchEvent_def Let_def)

lemma transformLines_append:
  "transformLines (xs @ ys) st = transformLines ys (transformLines xs st)"
proof (induction xs arbitrary: st)
  case Nil
  then show ?case by simp
next
  case (Cons x xs)
  obtain ev lid c where st: "st = (ev, lid, c)" by (cases st)
  show ?case using Cons.IH by (simp add: st split: prod.splits)
qed

lemma transformLines_dispatch:
  assumes "[] \<notin> set block"
  shows "transformLines (block @ [[]]) (createEvent, lid, c) =
           (createEvent, spec_lastEventId lid block, c @ spec_events lid block)"
proof -
  have "transformLines (block @ [[]]) (createEvent, lid, c) =
          transformLines [[]] (transformLines block (createEvent, lid, c))"
    by (rule transformLines_append)
  then show ?thesis
    by (simp add: transformLines_block [OF assms] createEvent_def dispatchEvent_block
        spec_events_def spec_data_def spec_type_def spec_retry_def retry_values Let_def)
qed

lemma transformLines_lastEventId:
  "fst (snd (transformLines ls (ev, lid, c))) = spec_lastEventId lid ls"
proof (induction ls arbitrary: ev lid c)
  case Nil
  then show ?case by (simp add: spec_lastEventId_def)
next
  case (Cons l ls)
  show ?case
  proof (cases "l = [] \<or> startsWith l [COLON]")
    case True
    then show ?thesis
      using Cons.IH names_distinct
      by (auto simp: fieldValues_Cons spec_lastEventId_def fieldName_def)
  next
    case False
    then show ?thesis
      using Cons.IH by (simp add: fieldValues_Cons spec_lastEventId_def processField_cases)
  qed
qed

lemma flush_as_lines:
  "fst (flush c p) = snd (snd (transformLines [buffer p, []] (event p, lastEventId p, c)))"
  by (simp add: flush_def dispatchEvent_def createEvent_def endsWith_def Let_def split: prod.splits)

lemma fieldName_Nil [simp]: "fieldName [] = []"
  by (simp add: fieldName_def)

lemma fieldValues_blank:
  "name \<noteq> [] \<Longrightarrow> fieldValues name (ls @ [[]]) = fieldValues name ls"
  by (auto simp: fieldValues_append fieldValues_Cons)

lemma spec_events_blank: "spec_events lid (ls @ [[]]) = spec_events lid ls"
  using names_distinct
  by (simp add: spec_events_def spec_data_def spec_type_def spec_retry_def spec_lastEventId_def
      fieldValues_blank)

lemma dispatchEvent_createEvent: "dispatchEvent createEvent c lid = c"
  by (simp add: dispatchEvent_def createEvent_def endsWith_def)

lemma flush_dispatch:
  assumes "[] \<notin> set block"
  shows "fst (flush c
           \<lparr>buffer = b, isFirstChunk = f,
             event = fst (transformLines block (createEvent, lid, c)),
             lastEventId = fst (snd (transformLines block (createEvent, lid, c)))\<rparr>) =
         c @ spec_events lid (block @ [b])"
proof -
  let ?st = "transformLines block (createEvent, lid, c)"
  have c: "snd (snd ?st) = c"
    by (simp add: transformLines_block [OF assms])
  have "fst (flush c \<lparr>buffer = b, isFirstChunk = f, event = fst ?st, lastEventId = fst (snd ?st)\<rparr>) =
        snd (snd (transformLines [b, []] ?st))"
    using c by (simp add: flush_as_lines del: transformLines.simps) (metis prod.collapse)
  also have "\<dots> = snd (snd (transformLines (block @ [b] @ [[]]) (createEvent, lid, c)))"
    by (simp add: transformLines_append del: transformLines.simps)
  also have "\<dots> = c @ spec_events lid (block @ [b])"
  proof (cases "b = []")
    case True
    have "transformLines (block @ [[]] @ [[]]) (createEvent, lid, c) =
            transformLines [[]] (transformLines (block @ [[]]) (createEvent, lid, c))"
      using transformLines_append [of "block @ [[]]" "[[]]"] by simp
    then show ?thesis
      using True
      by (simp add: transformLines_dispatch [OF assms] dispatchEvent_createEvent spec_events_blank)
  next
    case False
    with assms have "[] \<notin> set (block @ [b])" by auto
    from transformLines_dispatch [OF this] show ?thesis by simp
  qed
  finally show ?thesis .
qed

section \<open>Emitted records\<close>

lemmas eval_defs = js_def startsWith_def endsWith_def slice_def sliceFrom_def sliceIndex_def
  includesUnit_def fieldName_def fieldValue_def processField_def dispatchEvent_def createEvent_def
  flush_def fieldValues_def spec_data_def spec_type_def spec_retry_def spec_lastEventId_def
  allDigits_def isDigit_def parseInt_def isWhiteSpace_def mathInt_def toNumber_def Let_def

text \<open>
  C2: for the lines \<open>block\<close> of one event (no blank line among them), the accumulated data
  is each \<open>data\<close> value followed by a newline, in the order met. The dispatch attempt of
  the blank line after them, and the one of \<open>flush\<close> with \<open>b\<close> left in the buffer, emits
  nothing when the values joined by single newlines are the empty string, and otherwise one
  record whose data is exactly that: the accumulated data less one trailing newline.
\<close>

theorem data_fields_joined:
  assumes "[] \<notin> set block"
  shows "data (fst (transformLines block (createEvent, lid, c))) =
           concat (map (\<lambda>v. v @ [LF]) (fieldValues (js ''data'') block)) \<and>
         take (length c) (snd (snd (transformLines (block @ [[]]) (createEvent, lid, c)))) = c \<and>
         map sse_data (drop (length c) (snd (snd (transformLines (block @ [[]]) (createEvent, lid, c))))) =
           (if spec_data block = [] then [] else [spec_data block]) \<and>
         map sse_data (drop (length c) (fst (flush c
             \<lparr>buffer = b, isFirstChunk = f,
               event = fst (transformLines block (createEvent, lid, c)),
               lastEventId = fst (snd (transformLines block (createEvent, lid, c)))\<rparr>))) =
           (if spec_data (block @ [b]) = [] then [] else [spec_data (block @ [b])])"
proof -
  have "data (fst (transformLines block (createEvent, lid, c))) =
          concat (map (\<lambda>v. v @ [LF]) (fieldValues (js ''data'') block))"
    by (simp add: transformLines_block [OF assms] createEvent_def)
  moreover have "snd (snd (transformLines (block @ [[]]) (createEvent, lid, c))) =
          c @ spec_events lid block"
    by (simp only: transformLines_dispatch [OF assms] snd_conv)
  moreover note flush_dispatch [OF assms, of c b f lid]
  ultimately show ?thesis
    by (simp only: spec_events_def) simp
qed

theorem data_fields_joined_witness:
  "data (fst (transformLines [js ''data: a'', js ''data'', js ''data:  b'', js ''data:'']
       (createEvent, [], []))) = js ''a'' @ [LF, LF] @ js '' b'' @ [LF, LF] \<and>
   map sse_data (snd (snd (transformLines
       [js ''data: a'', js ''data'', js ''data:  b'', js ''data:'', []] (createEvent, [], [])))) =
     [js ''a'' @ [LF, LF] @ js '' b'' @ [LF]] \<and>
   map sse_data (fst (flush []
       \<lparr>buffer = js ''data: c'', isFirstChunk = False,
         event = fst (transformLines [js ''data: a'', js ''data'', js ''data:  b'', js ''data:''] (createEvent, [], [])),
         lastEventId = fst (snd (transformLines [js ''data: a'', js ''data'', js ''data:  b'', js ''data:''] (createEvent, [], [])))\<rparr>)) =
     [js ''a'' @ [LF, LF] @ js '' b'' @ [LF, LF] @ js ''c'']"
  using data_fields_joined
    [where block = "[js ''data: a'', js ''data'', js ''data:  b'', js ''data:'']"
       and lid = "[]" and c = "[]" and b = "js ''data: c''" and f = False]
  by (simp add: eval_defs)

lemma transformLines_id_line:
  "l \<noteq> [] \<Longrightarrow> \<not> startsWith l [COLON] \<Longrightarrow> fieldName l = js ''id'' \<Longrightarrow>
   transformLines [l] (ev, lid, c) =
     (ev, if includesUnit (fieldValue l) NUL then lid else fieldValue l, c)"
  using names_distinct by (simp add: processField_cases)

lemma dispatchEvent_lastEventId:
  "list_all (\<lambda>r. sse_lastEventId r = lid) (drop (length c) (dispatchEvent ev c lid))"
  by (simp add: dispatchEvent_def Let_def)

lemma transformLines_blank_after:
  "transformLines (ls @ [[]]) st =
     (createEvent, fst (snd (transformLines ls st)),
      dispatchEvent (fst (transformLines ls st)) (snd (snd (transformLines ls st)))
        (fst (snd (transformLines ls st))))"
  by (cases "transformLines ls st") (simp add: transformLines_append)

lemma spec_lastEventId_append:
  "spec_lastEventId lid (xs @ ys) = spec_lastEventId (spec_lastEventId lid xs) ys"
  by (simp add: spec_lastEventId_def fieldValues_append lastOr_append)

lemma flush_field_lastEventId:
  "snd (if buffer p \<noteq> [] \<and> \<not> startsWith (buffer p) [COLON]
        then processField (buffer p) (event p) (lastEventId p)
        else (event p, lastEventId p)) =
   spec_lastEventId (lastEventId p) [buffer p]"
  using names_distinct
  by (auto simp: processField_cases spec_lastEventId_def fieldValues_Cons)

lemma flush_lastEventId:
  "list_all (\<lambda>r. sse_lastEventId r = spec_lastEventId (lastEventId p) [buffer p])
     (drop (length c) (fst (flush c p)))"
proof -
  obtain ev' lid' where f:
    "(if buffer p \<noteq> [] \<and> \<not> startsWith (buffer p) [COLON]
      then processField (buffer p) (event p) (lastEventId p)
      else (event p, lastEventId p)) = (ev', lid')"
    by (meson surj_pair)
  then have "lid' = spec_lastEventId (lastEventId p) [buffer p]"
    using flush_field_lastEventId [of p] by simp
  moreover have "fst (flush c p) = dispatchEvent ev' c lid'"
    using f by (simp add: flush_def)
  ultimately show ?thesis
    using dispatchEvent_lastEventId [of lid' c ev'] by simp
qed

text \<open>
  C3: after any lines \<open>ls\<close>, blank lines and discarded events among them, the stream's
  last event id is the value of the last \<open>id\<close> field without a NUL among them, or what it
  was before them (the empty string for a new parser) if there is none. A record enqueued
  by the blank line after \<open>ls\<close>, or by \<open>flush\<close> after \<open>ls\<close> with \<open>b\<close> left in the
  buffer, carries that id. An \<open>id\<close> line sets the id at once to its value, the empty value
  included, and changes nothing when its value holds a NUL.
\<close>

theorem lastEventId_most_recent_valid_id:
  "fst (snd (transformLines ls (ev, lid, c))) = spec_lastEventId lid ls \<and>
   list_all (\<lambda>r. sse_lastEventId r = spec_lastEventId lid ls)
     (drop (length (snd (snd (transformLines ls (ev, lid, c)))))
        (snd (snd (transformLines (ls @ [[]]) (ev, lid, c))))) \<and>
   (l \<noteq> [] \<and> \<not> startsWith l [COLON] \<and> fieldName l = js ''id'' \<longrightarrow>
      transformLines [l] (ev, lid, c) =
        (ev, if includesUnit (fieldValue l) NUL then lid else fieldValue l, c)) \<and>
   list_all (\<lambda>r. sse_lastEventId r = spec_lastEventId lid (ls @ [b]))
     (drop (length c')
        (fst (flush c' \<lparr>buffer = b, isFirstChunk = f, event = ev',
                          lastEventId = fst (snd (transformLines ls (ev, lid, c)))\<rparr>)))"
proof -
  have "list_all (\<lambda>r. sse_lastEventId r = spec_lastEventId lid (ls @ [b]))
     (drop (length c')
        (fst (flush c' \<lparr>buffer = b, isFirstChunk = f, event = ev',
                          lastEventId = fst (snd (transformLines ls (ev, lid, c)))\<rparr>)))"
    using flush_lastEventId
      [of "\<lparr>buffer = b, isFirstChunk = f, event = ev',
            lastEventId = fst (snd (transformLines ls (ev, lid, c)))\<rparr>" c']
    by (simp add: spec_lastEventId_append transformLines_lastEventId)
  moreover
  have "list_all (\<lambda>r. sse_lastEventId r = spec_lastEventId lid ls)
     (drop (length (snd (snd (transformLines ls (ev, lid, c)))))
        (snd (snd (transformLines (ls @ [[]]) (ev, lid, c)))))"
    using dispatchEvent_lastEventId
      [of "fst (snd (transformLines ls (ev, lid, c)))" "snd (snd (transformLines ls (ev, lid, c)))"
          "fst (transformLines ls (ev, lid, c))"]
    by (simp only: transformLines_blank_after snd_conv transformLines_lastEventId)
  ultimately show ?thesis
    using transformLines_lastEventId [of ls ev lid c] transformLines_id_line [of l ev lid c]
    by blast
qed

theorem lastEventId_most_recent_valid_id_witness:
  "fst (snd (transformLines [js ''id: 1'', [], js ''id: 2'', js ''id: 3'' @ [NUL], js ''data: x'']
      (createEvent, [], []))) = js ''2'' \<and>
   map sse_lastEventId (snd (snd (transformLines
      [js ''id: 1'', [], js ''id: 2'', js ''id: 3'' @ [NUL], js ''data: x'', []]
      (createEvent, [], [])))) = [js ''2''] \<and>
   transformLines [js ''id''] (createEvent, js ''2'', []) = (createEvent, [], []) \<and>
   map sse_lastEventId (fst (flush []
      \<lparr>buffer = js ''id: 4'', isFirstChunk = False, event = \<lparr>type = [], data = js ''x'' @ [LF], retry = None\<rparr>,
        lastEventId = fst (snd (transformLines
          [js ''id: 1'', [], js ''id: 2'', js ''id: 3'' @ [NUL], js ''data: x''] (createEvent, [], [])))\<rparr>)) =
     [js ''4'']"
  using lastEventId_most_recent_valid_id
    [where ls = "[js ''id: 1'', [], js ''id: 2'', js ''id: 3'' @ [NUL], js ''data: x'']"
       and ev = createEvent and lid = "[]" and c = "[]" and l = "js ''id''" and b = "js ''id: 4''"
       and c' = "[]" and f = False and ev' = "\<lparr>type = [], data = js ''x'' @ [LF], retry = None\<rparr>"]
    lastEventId_most_recent_valid_id
    [where ls = "[]" and ev = createEvent and lid = "js ''2''" and c = "[]" and l = "js ''id''" and b = "[]"
       and c' = "[]" and f = False and ev' = createEvent]
  by (simp add: eval_defs)

lemma transformLines_retry_line:
  "l \<noteq> [] \<Longrightarrow> \<not> startsWith l [COLON] \<Longrightarrow> fieldName l = js ''retry'' \<Longrightarrow>
   transformLines [l] (ev, lid, c) =
     (if allDigits (fieldValue l)
      then ev\<lparr>retry := Some (toNumber Plus (decimalValue (fieldValue l)))\<rparr> else ev,
      lid, c)"
  using names_distinct by (simp add: processField_cases parseInt_digits)

lemma lastOr_Some: "(lastOr None (map (\<lambda>v. Some (g v)) vs) = None) = (vs = [])"
proof (cases vs rule: rev_cases)
  case Nil
  then show ?thesis by simp
next
  case (snoc ws w)
  then show ?thesis by (simp add: lastOr_append)
qed

text \<open>
  C4: the record emitted for the lines \<open>block\<close> of one event, at a blank line or at
  \<open>flush\<close>, has as retry the Number for the last \<open>retry\<close> value of the event that is all
  decimal digits, and \<open>undefined\<close> if the event has no such value. A \<open>retry\<close> line whose
  value is not all digits leaves the retry of the event as it was. The Number for the
  digits is the integer they are in base 10 when that is below \<open>2^53\<close>; above, it is the
  integer rounded to a double, and an infinity from \<open>2^1024\<close> on.
\<close>

theorem retry_last_valid_value:
  assumes "[] \<notin> set block"
  shows "map sse_retry (drop (length c)
             (snd (snd (transformLines (block @ [[]]) (createEvent, lid, c))))) =
           (if spec_data block = [] then [] else [spec_retry block]) \<and>
         map sse_retry (drop (length c) (fst (flush c
             \<lparr>buffer = b, isFirstChunk = f,
               event = fst (transformLines block (createEvent, lid, c)),
               lastEventId = fst (snd (transformLines block (createEvent, lid, c)))\<rparr>))) =
           (if spec_data (block @ [b]) = [] then [] else [spec_retry (block @ [b])]) \<and>
         (spec_retry block = None) = (filter allDigits (fieldValues (js ''retry'') block) = []) \<and>
         (l \<noteq> [] \<and> \<not> startsWith l [COLON] \<and> fieldName l = js ''retry'' \<longrightarrow>
            transformLines [l] (ev, lid, c) =
              (if allDigits (fieldValue l)
               then ev\<lparr>retry := Some (toNumber Plus (decimalValue (fieldValue l)))\<rparr>
               else ev, lid, c)) \<and>
         (n < 2 ^ 53 \<longrightarrow> toNumber Plus n = Finite Plus n) \<and>
         (2 ^ 1024 \<le> m \<longrightarrow> toNumber Plus m = Infinite Plus)"
proof -
  have d: "snd (snd (transformLines (block @ [[]]) (createEvent, lid, c))) =
          c @ spec_events lid block"
    by (simp only: transformLines_dispatch [OF assms] snd_conv)
  have 1: "map sse_retry (drop (length c)
             (snd (snd (transformLines (block @ [[]]) (createEvent, lid, c))))) =
           (if spec_data block = [] then [] else [spec_retry block])"
    by (simp only: d spec_events_def) simp
  have 2: "map sse_retry (drop (length c) (fst (flush c
             \<lparr>buffer = b, isFirstChunk = f,
               event = fst (transformLines block (createEvent, lid, c)),
               lastEventId = fst (snd (transformLines block (createEvent, lid, c)))\<rparr>))) =
           (if spec_data (block @ [b]) = [] then [] else [spec_retry (block @ [b])])"
    by (simp only: flush_dispatch [OF assms] spec_events_def) simp
  have 3: "(spec_retry block = None) =
      (filter allDigits (fieldValues (js ''retry'') block) = [])"
    unfolding spec_retry_def by (rule lastOr_Some)
  have 4: "l \<noteq> [] \<and> \<not> startsWith l [COLON] \<and> fieldName l = js ''retry'' \<longrightarrow>
            transformLines [l] (ev, lid, c) =
              (if allDigits (fieldValue l)
               then ev\<lparr>retry := Some (toNumber Plus (decimalValue (fieldValue l)))\<rparr>
               else ev, lid, c)"
    using transformLines_retry_line [of l ev lid c] by blast
  have 5: "n < 2 ^ 53 \<longrightarrow> toNumber Plus n = Finite Plus n"
    using toNumber_exact [of n Plus] by blast
  have 6: "2 ^ 1024 \<le> m \<longrightarrow> toNumber Plus m = Infinite Plus"
    using toNumber_overflow [of m Plus] by blast
  from 1 2 3 4 5 6 show ?thesis by (intro conjI)
qed

theorem retry_last_valid_value_witness:
  "map sse_retry (snd (snd (transformLines
      [js ''retry: 12'', js ''retry: 5000'', js ''retry: 7x'', js ''retry:'', js ''data: x'', []]
      (createEvent, [], [])))) = [Some (Finite Plus 5000)] \<and>
   map sse_retry (fst (flush []
      \<lparr>buffer = js ''data: y'', isFirstChunk = False,
        event = fst (transformLines [js ''retry: 12'', js ''retry: 5000'', js ''retry: 7x'', js ''retry:'', js ''data: x''] (createEvent, [], [])),
        lastEventId = fst (snd (transformLines [js ''retry: 12'', js ''retry: 5000'', js ''retry: 7x'', js ''retry:'', js ''data: x''] (createEvent, [], [])))\<rparr>)) =
     [Some (Finite Plus 5000)] \<and>
   spec_retry [js ''retry: 12'', js ''retry: 5000'', js ''retry: 7x'', js ''retry:'', js ''data: x''] =
     Some (Finite Plus 5000) \<and>
   transformLines [js ''retry: -1''] (\<lparr>type = [], data = [], retry = Some (Finite Plus 3)\<rparr>, [], []) =
     (\<lparr>type = [], data = [], retry = Some (Finite Plus 3)\<rparr>, [], []) \<and>
   toNumber Plus 5000 = Finite Plus 5000 \<and>
   toNumber Plus (2 ^ 1024) = Infinite Plus"
  using retry_last_valid_value
    [where block = "[js ''retry: 12'', js ''retry: 5000'', js ''retry: 7x'', js ''retry:'', js ''data: x'']"
       and lid = "[]" and c = "[]" and b = "js ''data: y''" and f = False
       and l = "js ''retry: -1''" and ev = "\<lparr>type = [], data = [], retry = Some (Finite Plus 3)\<rparr>"
       and n = 5000 and m = "2 ^ 1024"]
  by (simp add: eval_defs mathInt_decimalValue [symmetric])

text \<open>
  The value \<open>9007199254740993\<close>, which is \<open>2^53 + 1\<close>, is emitted as \<open>9007199254740992\<close>.
\<close>

theorem retry_rounded_above_2_53:
  "map sse_retry (snd (snd (transformLines
      [js ''retry: 9007199254740993'', js ''data: x'', []] (createEvent, [], [])))) =
     [Some (Finite Plus 9007199254740992)] \<and>
   decimalValue (js ''9007199254740993'') = 9007199254740993"
  by (simp add: eval_defs bitLength.simps mathInt_decimalValue [symmetric])

lemma transformLines_reset: "fst (transformLines (ls @ [[]]) st) = createEvent"
  by (simp add: transformLines_blank_after)

text \<open>
  C5: the record emitted for the lines \<open>block\<close> of one event, at a blank line or at
  \<open>flush\<close>, has as type the last \<open>event\<close> value of the event, or \<open>message\<close> if that is
  empty or there is none. After every blank line the in-progress event is a fresh one,
  whose type is empty, as it is in a new parser.
\<close>

theorem type_defaults_and_resets:
  assumes "[] \<notin> set block"
  shows "map sse_type (drop (length c)
             (snd (snd (transformLines (block @ [[]]) (createEvent, lid, c))))) =
           (if spec_data block = [] then [] else [spec_type block]) \<and>
         map sse_type (drop (length c) (fst (flush c
             \<lparr>buffer = b, isFirstChunk = f,
               event = fst (transformLines block (createEvent, lid, c)),
               lastEventId = fst (snd (transformLines block (createEvent, lid, c)))\<rparr>))) =
           (if spec_data (block @ [b]) = [] then [] else [spec_type (block @ [b])]) \<and>
         fst (transformLines (ls @ [[]]) st) = createEvent \<and>
         type createEvent = [] \<and> event newParser = createEvent"
proof -
  have "snd (snd (transformLines (block @ [[]]) (createEvent, lid, c))) =
          c @ spec_events lid block"
    by (simp only: transformLines_dispatch [OF assms] snd_conv)
  moreover note flush_dispatch [OF assms, of c b f lid]
  moreover note transformLines_reset [of ls st]
  moreover have "type createEvent = []" "event newParser = createEvent"
    by (simp_all add: createEvent_def newParser_def)
  ultimately show ?thesis
    by (simp only: spec_events_def) simp
qed

theorem type_defaults_and_resets_witness:
  "map sse_type (snd (snd (transformLines
      [js ''event: a'', js ''event: update'', js ''data: x'', []] (createEvent, [], [])))) =
     [js ''update''] \<and>
   map sse_type (snd (snd (transformLines
      [js ''event: a'', js ''event'', js ''data: x'', []] (createEvent, [], [])))) =
     [js ''message''] \<and>
   map sse_type (snd (snd (transformLines
      [js ''event: a'', js ''data: x'', [], js ''data: y'', []] (createEvent, [], [])))) =
     [js ''a'', js ''message'']"
  using type_defaults_and_resets
    [where block = "[js ''event: a'', js ''event: update'', js ''data: x'']"
       and lid = "[]" and c = "[]" and b = "[]" and f = False and ls = "[]" and st = "(createEvent, [], [])"]
    type_defaults_and_resets
    [where block = "[js ''event: a'', js ''event'', js ''data: x'']"
       and lid = "[]" and c = "[]" and b = "[]" and f = False and ls = "[]" and st = "(createEvent, [], [])"]
    type_defaults_and_resets
    [where block = "[js ''data: y'']"
       and lid = "[]" and c = "[\<lparr>sse_type = js ''a'', sse_data = js ''x'', sse_lastEventId = [], sse_retry = None\<rparr>]"
       and b = "[]" and f = False and ls = "[js ''event: a'', js ''data: x'']" and st = "(createEvent, [], [])"]
  by (simp add: eval_defs)

section \<open>End of input\<close>

lemma splitLines_nonempty: "splitLines s \<noteq> []"
  by (induction s rule: splitLines.induct) (auto split: list.splits)

lemma flush_comment:
  "startsWith (buffer p) [COLON] \<Longrightarrow> fst (flush c p) = dispatchEvent (event p) c (lastEventId p)"
  by (simp add: flush_def)

lemma readAll_single:
  "readAll [Str t] =
     Inr (snd (snd (transformLines (splitLines (stripBOM t) @ [[]]) (createEvent, [], []))))"
proof -
  let ?ls = "splitLines (stripBOM t)"
  obtain ev lid c where r: "transformLines (butlast ?ls) (createEvent, [], []) = (ev, lid, c)"
    by (cases "transformLines (butlast ?ls) (createEvent, [], [])")
  have w: "writeAll [Str t] [] newParser =
          (Inr (), c, \<lparr>buffer = last ?ls, isFirstChunk = False, event = ev, lastEventId = lid\<rparr>)"
    using r by (simp add: transform_def newParser_def splitLines_nonempty Let_def)
  have "?ls @ [[]] = butlast ?ls @ [last ?ls, []]"
    using splitLines_nonempty [of "stripBOM t"] by simp
  then have "transformLines (?ls @ [[]]) (createEvent, [], []) =
          transformLines [last ?ls, []] (ev, lid, c)"
    using r by (simp only: transformLines_append)
  then show ?thesis
    using w by (simp add: readAll_def flush_as_lines del: transformLines.simps)
qed

text \<open>
  C9: \<open>flush\<close> enqueues what a blank line enqueues after the buffer taken as one more line:
  a buffer that is a comment (or empty) is skipped and the event is dispatched as it is.
  A stream written as one chunk therefore yields the events of all the pieces of its
  text, the unterminated last one included, followed by a blank line. When the event in
  progress at the end of input, with the buffer as its last line, has data, \<open>flush\<close>
  enqueues its record.
\<close>

theorem flush_processes_remainder:
  "fst (flush c p) = snd (snd (transformLines [buffer p, []] (event p, lastEventId p, c))) \<and>
   (startsWith (buffer p) [COLON] \<longrightarrow>
      fst (flush c p) = dispatchEvent (event p) c (lastEventId p)) \<and>
   readAll [Str t] =
     Inr (snd (snd (transformLines (splitLines (stripBOM t) @ [[]]) (createEvent, [], [])))) \<and>
   ([] \<notin> set block \<and> spec_data (block @ [b]) \<noteq> [] \<longrightarrow>
      fst (flush c
        \<lparr>buffer = b, isFirstChunk = f,
          event = fst (transformLines block (createEvent, lid, c)),
          lastEventId = fst (snd (transformLines block (createEvent, lid, c)))\<rparr>) =
      c @ [\<lparr>sse_type = spec_type (block @ [b]), sse_data = spec_data (block @ [b]),
             sse_lastEventId = spec_lastEventId lid (block @ [b]),
             sse_retry = spec_retry (block @ [b])\<rparr>])"
  using flush_as_lines [of c p] flush_comment [of p c] readAll_single [of t]
    flush_dispatch [of block c b f lid]
  by (simp only: spec_events_def) simp

theorem flush_processes_remainder_witness:
  "fst (flush [] \<lparr>buffer = js ''data: world'', isFirstChunk = False,
                   event = \<lparr>type = [], data = js ''hello'' @ [LF], retry = None\<rparr>,
                   lastEventId = js ''7''\<rparr>) =
     [\<lparr>sse_type = js ''message'', sse_data = js ''hello'' @ [LF] @ js ''world'',
       sse_lastEventId = js ''7'', sse_retry = None\<rparr>] \<and>
   fst (flush [] \<lparr>buffer = js '': data: world'', isFirstChunk = False,
                   event = \<lparr>type = [], data = js ''hello'' @ [LF], retry = None\<rparr>,
                   lastEventId = js ''7''\<rparr>) =
     [\<lparr>sse_type = js ''message'', sse_data = js ''hello'',
       sse_lastEventId = js ''7'', sse_retry = None\<rparr>] \<and>
   readAll [Str (js ''data: hello'')] =
     Inr [\<lparr>sse_type = js ''message'', sse_data = js ''hello'', sse_lastEventId = [],
           sse_retry = None\<rparr>]"
  using flush_processes_remainder
    [where c = "[]" and p = "\<lparr>buffer = js '': data: world'', isFirstChunk = False,
                   event = \<lparr>type = [], data = js ''hello'' @ [LF], retry = None\<rparr>,
                   lastEventId = js ''7''\<rparr>"
       and t = "js ''data: hello''" and block = "[js ''data: hello'']" and b = "js ''data: world''"
       and f = False and lid = "js ''7''"]
  by (simp add: eval_defs)

section \<open>The byte order mark\<close>

lemma transform_first_chunk:
  "transform (Str t) c p =
     transform (Str (if isFirstChunk p then stripBOM t else t)) c (p\<lparr>isFirstChunk := False\<rparr>)"
  by (simp add: transform_def)

lemma writeAll_first_chunk:
  "writeAll (Str t # cs) c newParser =
     writeAll (Str (stripBOM t) # cs) c (newParser\<lparr>isFirstChunk := False\<rparr>)"
  using transform_first_chunk [of t c newParser] by (simp add: newParser_def)

lemma stripBOM_append: "t \<noteq> [] \<Longrightarrow> stripBOM t @ rest = stripBOM (t @ rest)"
  by (cases t) auto

lemma transform_verbatim:
  "\<not> isFirstChunk p \<Longrightarrow>
   transform (Str s) c p = transform (Str []) c (p\<lparr>buffer := buffer p @ s\<rparr>)"
  by (simp add: transform_def)

lemma transform_isFirstChunk: "isFirstChunk (snd (snd (transform (Str s) c p))) = False"
  by (simp add: transform_def Let_def split: prod.splits)

lemma concat_splitLines: "concat (splitLines s) = filter (\<lambda>u. u \<noteq> CR \<and> u \<noteq> LF) s"
  by (induction s rule: splitLines.induct) (auto simp: splitLines_nonempty split: list.splits)

text \<open>
  When the first chunk is not empty, the stream behaves as a parser that strips nothing
  behaves on the same chunks with the leading byte order mark of the text removed; later
  chunks are appended to the buffer as they are, and splitting keeps every code unit that
  is no CR or LF.
\<close>

lemma bom_stripped_from_first_chunk:
  assumes "t \<noteq> []"
  shows "writeAll (Str t # cs) c newParser =
           writeAll (Str (stripBOM t) # cs) c (newParser\<lparr>isFirstChunk := False\<rparr>) \<and>
         stripBOM t @ rest = stripBOM (t @ rest) \<and>
         stripBOM (BOM # s) = s \<and>
         (\<not> isFirstChunk p \<longrightarrow>
            transform (Str s) c p = transform (Str []) c (p\<lparr>buffer := buffer p @ s\<rparr>)) \<and>
         isFirstChunk (snd (snd (transform (Str s) c p))) = False \<and>
         concat (splitLines s) = filter (\<lambda>u. u \<noteq> CR \<and> u \<noteq> LF) s"
  using writeAll_first_chunk [of t cs c] stripBOM_append [OF assms, of rest]
    transform_verbatim [of p s c] transform_isFirstChunk [of s c p] concat_splitLines [of s]
  by simp


text \<open>
  C8: a byte order mark at the very start of the stream's text is stripped when it comes in
  the first chunk. After an empty first chunk it is not: the same text in one chunk yields
  its event, and after an empty chunk the line starts with the mark, is an unknown field,
  and no event is emitted.
\<close>

theorem bom_after_empty_first_chunk:
  "readAll [Str [], Str (BOM # js ''data: x'' @ [LF, LF])] = Inr [] \<and>
   readAll [Str (BOM # js ''data: x'' @ [LF, LF])] =
     Inr [\<lparr>sse_type = js ''message'', sse_data = js ''x'', sse_lastEventId = [], sse_retry = None\<rparr>]"
  by (simp add: readAll_def transform_def newParser_def eval_defs)


section \<open>Chunk boundaries\<close>

lemma splitLines_Cons:
  "splitLines (c # s) =
     (if c = CR then (case s of [] \<Rightarrow> [[], []] | d # s' \<Rightarrow> if d = LF then [] # splitLines s' else [] # splitLines s)
      else if c = LF then [] # splitLines s
      else (case splitLines s of [] \<Rightarrow> [[c]] | l # ls \<Rightarrow> (c # l) # ls))"
  by (cases s) auto

lemma splitLines_append:
  "\<not> (x \<noteq> [] \<and> last x = CR \<and> y \<noteq> [] \<and> hd y = LF) \<Longrightarrow>
   splitLines (x @ y) = butlast (splitLines x) @ splitLines (last (splitLines x) @ y)"
proof (induction x rule: splitLines.induct)
  case 1
  then show ?case by simp
next
  case (2 c)
  then show ?case
    by (cases y) (auto simp: splitLines_Cons splitLines_nonempty split: list.splits)
next
  case (3 c d s)
  show ?case
  proof (cases "c = CR \<and> d = LF")
    case True
    have "\<not> (s \<noteq> [] \<and> last s = CR \<and> y \<noteq> [] \<and> hd y = LF)"
      using "3.prems" by auto
    with True "3.IH"(1) show ?thesis
      by (simp add: splitLines_nonempty)
  next
    case False
    have p: "\<not> (d # s \<noteq> [] \<and> last (d # s) = CR \<and> y \<noteq> [] \<and> hd y = LF)"
      using "3.prems" by auto
    show ?thesis
    proof (cases "c = CR \<or> c = LF")
      case True
      with False "3.IH"(2) p show ?thesis
        by (auto simp: splitLines_nonempty)
    next
      case nt: False
      with False "3.IH"(3) p have ih: "splitLines ((d # s) @ y) =
          butlast (splitLines (d # s)) @ splitLines (last (splitLines (d # s)) @ y)"
        by blast
      obtain l ls where sp: "splitLines (d # s) = l # ls"
        using splitLines_nonempty [of "d # s"] by (cases "splitLines (d # s)") auto
      show ?thesis
      proof (cases ls)
        case Nil
        with nt sp ih show ?thesis
          by (auto simp: splitLines_Cons [of c "l @ y"] split: list.splits)
      next
        case (Cons m ms)
        with nt sp ih show ?thesis by auto
      qed
    qed
  qed
qed

lemma writeAll_merge:
  assumes raw: "\<not> isFirstChunk p"
    and nb: "\<not> (buffer p @ a \<noteq> [] \<and> last (buffer p @ a) = CR \<and> b \<noteq> [] \<and> hd b = LF)"
  shows "writeAll [Str a, Str b] c p = writeAll [Str (a @ b)] c p"
proof -
  let ?ls = "splitLines (buffer p @ a)"
  let ?ls2 = "splitLines (last ?ls @ b)"
  obtain ev lid c1 where r1:
    "transformLines (butlast ?ls) (event p, lastEventId p, c) = (ev, lid, c1)"
    by (cases "transformLines (butlast ?ls) (event p, lastEventId p, c)")
  obtain ev2 lid2 c2 where r2: "transformLines (butlast ?ls2) (ev, lid, c1) = (ev2, lid2, c2)"
    by (cases "transformLines (butlast ?ls2) (ev, lid, c1)")
  have sp: "splitLines (buffer p @ a @ b) = butlast ?ls @ ?ls2"
    using splitLines_append [OF nb] by simp
  have bl: "butlast (butlast ?ls @ ?ls2) = butlast ?ls @ butlast ?ls2"
    and la: "last (butlast ?ls @ ?ls2) = last ?ls2"
    using splitLines_nonempty [of "last ?ls @ b"] by (simp_all add: butlast_append)
  have t1: "transform (Str a) c p =
      (Inr (), c1, \<lparr>buffer = last ?ls, isFirstChunk = False, event = ev, lastEventId = lid\<rparr>)"
    using raw r1 by (simp add: transform_def splitLines_nonempty Let_def)
  have t2: "transform (Str b) c1
        \<lparr>buffer = last ?ls, isFirstChunk = False, event = ev, lastEventId = lid\<rparr> =
      (Inr (), c2, \<lparr>buffer = last ?ls2, isFirstChunk = False, event = ev2, lastEventId = lid2\<rparr>)"
    using r2 by (simp add: transform_def splitLines_nonempty Let_def)
  have "transformLines (butlast ?ls @ butlast ?ls2) (event p, lastEventId p, c) = (ev2, lid2, c2)"
    using r1 r2 by (simp only: transformLines_append)
  then have t3: "transform (Str (a @ b)) c p =
      (Inr (), c2, \<lparr>buffer = last ?ls2, isFirstChunk = False, event = ev2, lastEventId = lid2\<rparr>)"
    using raw splitLines_nonempty [of "last ?ls @ b"]
    by (simp add: transform_def sp bl la Let_def)
  show ?thesis
    by (simp add: t1 t2 t3)
qed

lemma writeAll_two:
  "writeAll (x # y # rest) c p =
     (case writeAll [x, y] c p of
        (Inl e, c', p') \<Rightarrow> (Inl e, c', p')
      | (Inr u, c', p') \<Rightarrow> writeAll rest c' p')"
  using writeAll_append [of "[x, y]" rest c p] by simp

lemma writeAll_one:
  "writeAll (x # rest) c p =
     (case writeAll [x] c p of
        (Inl e, c', p') \<Rightarrow> (Inl e, c', p')
      | (Inr u, c', p') \<Rightarrow> writeAll rest c' p')"
  using writeAll_append [of "[x]" rest c p] by simp

lemma writeAll_concat:
  "\<not> isFirstChunk p \<Longrightarrow> keepsCRLF (buffer p @ a) ts \<Longrightarrow>
   writeAll (Str a # map Str ts) c p = writeAll [Str (a @ concat ts)] c p"
proof (induction ts arbitrary: a)
  case Nil
  then show ?case by simp
next
  case (Cons t ts)
  from Cons.prems have nb:
    "\<not> (buffer p @ a \<noteq> [] \<and> last (buffer p @ a) = CR \<and> t \<noteq> [] \<and> hd t = LF)"
    and k: "keepsCRLF (buffer p @ (a @ t)) ts"
    by simp_all
  have "writeAll (Str a # map Str (t # ts)) c p =
          (case writeAll [Str a, Str t] c p of
             (Inl e, c', p') \<Rightarrow> (Inl e, c', p')
           | (Inr u, c', p') \<Rightarrow> writeAll (map Str ts) c' p')"
    using writeAll_two [of "Str a" "Str t" "map Str ts" c p] by simp
  also have "\<dots> = (case writeAll [Str (a @ t)] c p of
             (Inl e, c', p') \<Rightarrow> (Inl e, c', p')
           | (Inr u, c', p') \<Rightarrow> writeAll (map Str ts) c' p')"
    by (simp only: writeAll_merge [OF Cons.prems(1) nb])
  also have "\<dots> = writeAll (Str (a @ t) # map Str ts) c p"
    using writeAll_one [of "Str (a @ t)" "map Str ts" c p] by simp
  also have "\<dots> = writeAll [Str ((a @ t) @ concat ts)] c p"
    by (rule Cons.IH [OF Cons.prems(1) k])
  finally show ?case by simp
qed

text \<open>
  When no chunk boundary separates a CR from an LF and the first chunk is not empty, the
  chunks give the events of their text written as one chunk.
\<close>

lemma fragments_as_one_chunk:
  assumes "t \<noteq> []" and "keepsCRLF (stripBOM t) ts"
  shows "readAll (Str t # map Str ts) = readAll [Str (t @ concat ts)]"
proof -
  let ?raw = "newParser\<lparr>isFirstChunk := False\<rparr>"
  have k: "keepsCRLF (buffer ?raw @ stripBOM t) ts"
    using assms(2) by (simp add: newParser_def)
  have "writeAll (Str t # map Str ts) [] newParser =
          writeAll (Str (stripBOM t) # map Str ts) [] ?raw"
    by (rule writeAll_first_chunk)
  also have "\<dots> = writeAll [Str (stripBOM t @ concat ts)] [] ?raw"
    by (rule writeAll_concat [OF _ k]) simp
  also have "\<dots> = writeAll [Str (stripBOM (t @ concat ts))] [] ?raw"
    by (simp only: stripBOM_append [OF assms(1)])
  also have "\<dots> = writeAll [Str (t @ concat ts)] [] newParser"
    by (rule writeAll_first_chunk [symmetric])
  finally show ?thesis by (simp only: readAll_def)
qed

lemma fragments_as_one_chunk_example:
  "readAll [Str (BOM # js ''data: pa''), Str (js ''rt'' @ [CR, LF]), Str [], Str [CR], Str [CR]] =
   readAll [Str (BOM # js ''data: part'' @ [CR, LF, CR, CR])]"
  using fragments_as_one_chunk
    [of "BOM # js ''data: pa''" "[js ''rt'' @ [CR, LF], [], [CR], [CR]]"]
  by (simp add: js_def)

text \<open>
  C1: a CR at the end of one chunk and an LF at the start of the next are split as two line
  ends, with an empty line between them that dispatches the event. The two data lines of
  one event, pushed in one chunk, give one record; pushed in two chunks with the boundary
  between CR and LF, they give two.
\<close>

theorem crlf_split_across_chunks:
  "readAll [Str (js ''data: a'' @ [CR]), Str (LF # js ''data: b'' @ [LF, LF])] =
     Inr [\<lparr>sse_type = js ''message'', sse_data = js ''a'', sse_lastEventId = [], sse_retry = None\<rparr>,
          \<lparr>sse_type = js ''message'', sse_data = js ''b'', sse_lastEventId = [], sse_retry = None\<rparr>] \<and>
   readAll [Str (js ''data: a'' @ [CR] @ LF # js ''data: b'' @ [LF, LF])] =
     Inr [\<lparr>sse_type = js ''message'', sse_data = js ''a'' @ [LF] @ js ''b'', sse_lastEventId = [],
           sse_retry = None\<rparr>]"
  by (simp add: readAll_def transform_def newParser_def eval_defs)

end
